theory Spec2Isabelle
  imports Complex_Main
begin

section \<open>Data model of the viewer (src/gui/main.cpp)\<close>

text \<open>
  Shape identities are \<open>libfive::Tree::Id\<close> values (node addresses); only their equality
  and their order, which fixes the iteration order of \<open>std::map\<close>, are used.
\<close>

type_synonym Id = nat

text \<open>\<open>struct Shape { mpr::Tape tape; libfive::Tree tree; }\<close>\<close>

record ('tape, 'tree) Shape =
  tape :: 'tape
  tree :: 'tree

text \<open>
  A \<open>std::map\<close> is an association list in iteration order: strictly increasing keys.
  \<open>find_key\<close> is \<open>m.find(k)\<close>, with \<open>None\<close> for \<open>m.end()\<close>.
\<close>

definition find_key :: "(Id \<times> 'v) list \<Rightarrow> Id \<Rightarrow> 'v option" where
  "find_key m k = map_of m k"

definition keys :: "(Id \<times> 'v) list \<Rightarrow> Id set" where
  "keys m = fst ` set m"

text \<open>\<open>m.emplace(k, v)\<close>: inserts at the key's place, and does nothing when the key is present.\<close>

fun emplace :: "Id \<Rightarrow> 'v \<Rightarrow> (Id \<times> 'v) list \<Rightarrow> (Id \<times> 'v) list" where
  "emplace k v [] = [(k, v)]"
| "emplace k v ((k', v') # rest) =
     (if k < k' then (k, v) # (k', v') # rest
      else if k = k' then (k', v') # rest
      else (k', v') # emplace k v rest)"

section \<open>Shape synchronization (main.cpp, lines 264 to 283)\<close>

text \<open>
  The calls the block makes on compiled resources: \<open>Release k\<close> is the destruction of the
  entry of \<open>k\<close> (and of the tape it owns) by \<open>shapes.erase\<close>, \<open>Compile k\<close> is a completed
  call of the constructor \<open>mpr::Tape(t.second)\<close> for identity \<open>k\<close>.
\<close>

datatype sync_event = Release Id | Compile Id

text \<open>
  The constructor \<open>mpr::Tape\<close> is declared in tape.hpp, which is not among the sources; it
  is a parameter \<open>Tape\<close> of the model. A constructor fails by throwing, so its result is
  either an exception or the tape.
\<close>

datatype exn = TapeError

text \<open>
  The erase loop: the iterator walks the owned map in order; an entry whose key is not
  found in \<open>interpreter.shapes\<close> is erased, the others are stepped over.
\<close>

fun erase_loop ::
  "(Id \<times> 'tree) list \<Rightarrow> (Id \<times> 's) list \<Rightarrow> (Id \<times> 's) list \<times> sync_event list" where
  "erase_loop live [] = ([], [])"
| "erase_loop live ((k, s) # rest) =
     (let (rest', ev) = erase_loop live rest
      in if find_key live k = None then (rest', Release k # ev)
         else ((k, s) # rest', ev))"

text \<open>
  The creation loop over \<open>interpreter.shapes\<close>: an identity not found in the owned map is
  compiled and emplaced. There is no handler around the constructor call, nor anywhere
  else in \<open>main\<close>: an exception leaves the loop, the frame and \<open>main\<close> (\<open>Inl\<close>).
\<close>

fun create_loop ::
  "('tree \<Rightarrow> exn + 'tape) \<Rightarrow> (Id \<times> 'tree) list \<Rightarrow> (Id \<times> ('tape, 'tree) Shape) list
     \<Rightarrow> exn + ((Id \<times> ('tape, 'tree) Shape) list \<times> sync_event list)" where
  "create_loop Tape [] shapes = Inr (shapes, [])"
| "create_loop Tape ((k, t) # rest) shapes =
     (if find_key shapes k = None then
        (case Tape t of
           Inl e \<Rightarrow> Inl e
         | Inr tp \<Rightarrow>
             (case create_loop Tape rest (emplace k \<lparr>tape = tp, tree = t\<rparr> shapes) of
                Inl e \<Rightarrow> Inl e
              | Inr (shapes', ev) \<Rightarrow> Inr (shapes', Compile k # ev)))
      else create_loop Tape rest shapes)"

definition synchronize ::
  "('tree \<Rightarrow> exn + 'tape) \<Rightarrow> (Id \<times> 'tree) list \<Rightarrow> (Id \<times> ('tape, 'tree) Shape) list
     \<Rightarrow> exn + ((Id \<times> ('tape, 'tree) Shape) list \<times> sync_event list)" where
  "synchronize Tape live shapes =
     (let (shapes1, ev1) = erase_loop live shapes
      in case create_loop Tape live shapes1 of
           Inl e \<Rightarrow> Inl e
         | Inr (shapes2, ev2) \<Rightarrow> Inr (shapes2, ev1 @ ev2))"

text \<open>
  The block runs only when \<open>needs_eval\<close> is set; \<open>live\<close> is \<open>interpreter.shapes\<close> as left by
  \<open>interpreter.eval\<close> (interpreter.hpp is not among the sources).
\<close>

definition sync_block ::
  "('tree \<Rightarrow> exn + 'tape) \<Rightarrow> bool \<Rightarrow> (Id \<times> 'tree) list \<Rightarrow> (Id \<times> ('tape, 'tree) Shape) list
     \<Rightarrow> exn + ((Id \<times> ('tape, 'tree) Shape) list \<times> sync_event list)" where
  "sync_block Tape needs_eval live shapes =
     (if needs_eval then synchronize Tape live shapes else Inr (shapes, []))"

text \<open>A compiler that fails on one expression, for concrete runs.\<close>

definition Tape_ex :: "string \<Rightarrow> exn + string" where
  "Tape_ex t = (if t = ''bad'' then Inl TapeError else Inr (''tape of '' @ t))"

text \<open>
  A concrete transition: the owned map holds identities 2 and 3, the script now defines
  1 and 2, and binds 2 to another expression than the one compiled.
\<close>

definition shapes_ex :: "(Id \<times> (string, string) Shape) list" where
  "shapes_ex = [(2, \<lparr>tape = ''tape of b'', tree = ''b''\<rparr>), (3, \<lparr>tape = ''tape of c'', tree = ''c''\<rparr>)]"

definition live_ex :: "(Id \<times> string) list" where
  "live_ex = [(1, ''a''), (2, ''b2'')]"

text \<open>
  A concrete failure: the owned map holds identity 2, the script defines 1, 2 and 4, and
  the expression of 1 does not compile.
\<close>

definition shapes_bad :: "(Id \<times> (string, string) Shape) list" where
  "shapes_bad = [(2, \<lparr>tape = ''tape of b'', tree = ''b''\<rparr>)]"

definition live_bad :: "(Id \<times> string) list" where
  "live_bad = [(1, ''bad''), (2, ''b''), (4, ''d'')]"

section \<open>Rendering (main.cpp, lines 304 to 410)\<close>

text \<open>
  An Eigen matrix of fixed size is the list of its rows. \<open>coeff\<close> reads and \<open>set_coeff\<close>
  writes one coefficient; the sizes are static in the source, so every index is in range.
  \<open>assign_block nr nc r c sr sc src dst\<close> is the assignment
  \<open>dst.block<nr, nc>(r, c) = src.block<nr, nc>(sr, sc)\<close> between distinct matrices.
\<close>

definition coeff :: "'a list list \<Rightarrow> nat \<Rightarrow> nat \<Rightarrow> 'a" where
  "coeff m i j = m ! i ! j"

definition set_coeff :: "'a list list \<Rightarrow> nat \<Rightarrow> nat \<Rightarrow> 'a \<Rightarrow> 'a list list" where
  "set_coeff m i j v = m[i := (m ! i)[j := v]]"

definition assign_block ::
  "nat \<Rightarrow> nat \<Rightarrow> nat \<Rightarrow> nat \<Rightarrow> nat \<Rightarrow> nat \<Rightarrow> 'a list list \<Rightarrow> 'a list list \<Rightarrow> 'a list list" where
  "assign_block nr nc r c sr sc src dst =
     fold (\<lambda>(i, j) d. set_coeff d (r + i) (c + j) (coeff src (sr + i) (sc + j)))
       (List.product [0..<nr] [0..<nc]) dst"

text \<open>
  Lines 359 to 363: \<open>mat2d\<close> is declared without an initial value (a 3 by 3 matrix of
  unspecified coefficients) and filled by four block assignments from \<open>mat\<close>.
\<close>

definition mat2d_of :: "'a list list \<Rightarrow> 'a list list" where
  "mat2d_of mat =
     (let mat2d = replicate 3 (replicate 3 undefined);
          mat2d = assign_block 2 2 0 0 0 0 mat mat2d;
          mat2d = assign_block 2 1 0 2 0 3 mat mat2d;
          mat2d = assign_block 1 2 2 0 3 0 mat mat2d;
          mat2d = assign_block 1 1 2 2 3 3 mat mat2d
      in mat2d)"

text \<open>The render modes of tex.hpp, by the names main.cpp uses.\<close>

datatype Mode =
  RENDER_MODE_2D | RENDER_MODE_DEPTH | RENDER_MODE_NORMALS | RENDER_MODE_SSAO | RENDER_MODE_SHADED

text \<open>
  Modelled from the spec: \<open>mpr::Context\<close>, whose declaration (context.hpp) is not among
  the sources. A context owns device buffers sized to \<open>image_size_px\<close>, the size its
  constructor was given; \<open>buffers\<close> names the allocation. "A size change destroys and
  reallocates rather than resizing in place": constructing allocates buffers no earlier
  context had, and assigning over a context releases the buffers it owned.
\<close>

record Context =
  image_size_px :: int
  buffers :: nat

text \<open>The calls on the device, each with the context it is given.\<close>

datatype ('tape, 'a) gpu_call =
    Render2D Context 'tape "'a list list"
  | Render3D Context 'tape "'a list list"
  | DrawSSAO Context
  | DrawShaded Context
  | CopyToTexture Context bool Mode
  | ContextAlloc Context
  | ContextFree Context

definition new_Context :: "nat \<Rightarrow> int \<Rightarrow> Context \<times> nat" where
  "new_Context next_buffers size_px =
     (\<lparr>image_size_px = size_px, buffers = next_buffers\<rparr>, Suc next_buffers)"

text \<open>
  The timed rendering pass of one shape (lines 354 to 392): the render call on the
  dimension, the effect on the mode, and the copy to the texture with the frame's
  \<open>append\<close> flag. The texts and timings the pass prints, and the button that exports the
  tree of the shape to shape.frep (lines 394 to 403), touch neither the context, the
  texture nor the flag, and are left out.
\<close>

definition render_pass ::
  "int \<Rightarrow> Mode \<Rightarrow> 'a list list \<Rightarrow> Context \<Rightarrow> bool \<Rightarrow> 'tape \<Rightarrow> ('tape, 'a) gpu_call list" where
  "render_pass render_dimension render_mode mat ctx append_flag tp =
     [if render_dimension = 2 then Render2D ctx tp (mat2d_of mat) else Render3D ctx tp mat]
     @ (if render_mode = RENDER_MODE_SSAO then [DrawSSAO ctx]
        else if render_mode = RENDER_MODE_SHADED then [DrawShaded ctx]
        else [])
     @ [CopyToTexture ctx append_flag render_mode]"

text \<open>The loop over the owned map (line 344); line 409 sets the flag after each shape.\<close>

fun shapes_loop ::
  "int \<Rightarrow> Mode \<Rightarrow> 'a list list \<Rightarrow> Context \<Rightarrow> bool \<Rightarrow> (Id \<times> ('tape, 'tree) Shape) list
     \<Rightarrow> ('tape, 'a) gpu_call list" where
  "shapes_loop render_dimension render_mode mat ctx append_flag [] = []"
| "shapes_loop render_dimension render_mode mat ctx append_flag ((k, s) # rest) =
     render_pass render_dimension render_mode mat ctx append_flag (tape s)
     @ shapes_loop render_dimension render_mode mat ctx True rest"

text \<open>The "Shapes" window of one frame: line 342 declares the flag, \<open>false\<close>, in the frame.\<close>

definition shapes_window ::
  "int \<Rightarrow> Mode \<Rightarrow> 'a list list \<Rightarrow> Context \<Rightarrow> (Id \<times> ('tape, 'tree) Shape) list
     \<Rightarrow> ('tape, 'a) gpu_call list" where
  "shapes_window render_dimension render_mode mat ctx shapes =
     shapes_loop render_dimension render_mode mat ctx False shapes"

text \<open>Consecutive frames, each with the owned map it draws.\<close>

fun render_frames ::
  "int \<Rightarrow> Mode \<Rightarrow> 'a list list \<Rightarrow> Context \<Rightarrow> (Id \<times> ('tape, 'tree) Shape) list list
     \<Rightarrow> ('tape, 'a) gpu_call list list" where
  "render_frames render_dimension render_mode mat ctx [] = []"
| "render_frames render_dimension render_mode mat ctx (shapes # later) =
     shapes_window render_dimension render_mode mat ctx shapes
     # render_frames render_dimension render_mode mat ctx later"

text \<open>The \<open>append\<close> arguments of the copies in a list of calls, in order.\<close>

fun copy_flags :: "('tape, 'a) gpu_call list \<Rightarrow> bool list" where
  "copy_flags [] = []"
| "copy_flags (CopyToTexture ctx append_flag m # calls) = append_flag # copy_flags calls"
| "copy_flags (c # calls) = copy_flags calls"

text \<open>The context a render, effect or copy call works on.\<close>

fun context_of :: "('tape, 'a) gpu_call \<Rightarrow> Context option" where
  "context_of (Render2D ctx tp m) = Some ctx"
| "context_of (Render3D ctx tp m) = Some ctx"
| "context_of (DrawSSAO ctx) = Some ctx"
| "context_of (DrawShaded ctx) = Some ctx"
| "context_of (CopyToTexture ctx append_flag m) = Some ctx"
| "context_of (ContextAlloc ctx) = None"
| "context_of (ContextFree ctx) = None"

text \<open>
  The "Settings" window (lines 304 to 336). \<open>ImGui::RadioButton(label, &v, b)\<close> stores
  \<open>b\<close> in \<open>v\<close> when the button is pressed in this frame; the presses are the inputs.
\<close>

definition RadioButton :: "bool \<Rightarrow> 'a \<Rightarrow> 'a \<Rightarrow> 'a" where
  "RadioButton pressed b v = (if pressed then b else v)"

record SettingsInput =
  press_256 :: bool
  press_512 :: bool
  press_1024 :: bool
  press_2048 :: bool
  press_2D :: bool
  press_3D :: bool
  press_Heightmap :: bool
  press_Normals :: bool
  press_SSAO :: bool
  press_Shaded :: bool

record RenderState =
  render_size :: int
  render_dimension :: int
  render_mode :: Mode
  ctx :: Context
  next_buffers :: nat

text \<open>Lines 306 to 312: the requested size after the four buttons.\<close>

definition requested_size :: "SettingsInput \<Rightarrow> int \<Rightarrow> int" where
  "requested_size inp size0 =
     RadioButton (press_2048 inp) 2048
       (RadioButton (press_1024 inp) 1024
         (RadioButton (press_512 inp) 512
           (RadioButton (press_256 inp) 256 size0)))"

definition settings_window ::
  "SettingsInput \<Rightarrow> RenderState \<Rightarrow> RenderState \<times> ('tape, 'a) gpu_call list" where
  "settings_window inp st =
     (let size1 = requested_size inp (render_size st);
          (ctx1, next1, calls) =
            (if size1 \<noteq> image_size_px (ctx st) then
               (let (c, n) = new_Context (next_buffers st) size1
                in (c, n, [ContextAlloc c, ContextFree (ctx st)]))
             else (ctx st, next_buffers st, []));
          dim1 = RadioButton (press_3D inp) 3 (RadioButton (press_2D inp) 2 (render_dimension st));
          mode1 =
            (if dim1 = 3 then
               RadioButton (press_Shaded inp) RENDER_MODE_SHADED
                 (RadioButton (press_SSAO inp) RENDER_MODE_SSAO
                   (RadioButton (press_Normals inp) RENDER_MODE_NORMALS
                     (RadioButton (press_Heightmap inp) RENDER_MODE_DEPTH (render_mode st))))
             else RENDER_MODE_2D)
      in (\<lparr>render_size = size1, render_dimension = dim1, render_mode = mode1,
           ctx = ctx1, next_buffers = next1\<rparr>, calls))"

text \<open>The device calls of one frame: the settings window, then the shapes window.\<close>

definition frame_calls ::
  "SettingsInput \<Rightarrow> 'a list list \<Rightarrow> (Id \<times> ('tape, 'tree) Shape) list \<Rightarrow> RenderState
     \<Rightarrow> RenderState \<times> ('tape, 'a) gpu_call list" where
  "frame_calls inp mat shapes st =
     (let (st1, calls) = settings_window inp st
      in (st1, calls @ shapes_window (render_dimension st1) (render_mode st1) mat (ctx st1) shapes))"

text \<open>Concrete inputs: no button pressed, and the button "512" pressed.\<close>

definition no_press :: SettingsInput where
  "no_press = \<lparr>press_256 = False, press_512 = False, press_1024 = False, press_2048 = False,
     press_2D = False, press_3D = False, press_Heightmap = False, press_Normals = False,
     press_SSAO = False, press_Shaded = False\<rparr>"

definition initial_render :: RenderState where
  "initial_render = \<lparr>render_size = 256, render_dimension = 3, render_mode = RENDER_MODE_NORMALS,
     ctx = \<lparr>image_size_px = 256, buffers = 0\<rparr>, next_buffers = 1\<rparr>"

definition press_512_ex :: SettingsInput where
  "press_512_ex = no_press\<lparr>press_512 := True\<rparr>"

definition mat_ex :: "int list list" where
  "mat_ex = [[2, 0, 0, 5], [0, 2, 0, 7], [0, 0, 2, 0], [0, 0, 0, 1]]"

section \<open>Loading and saving the script (main.cpp, lines 91 to 106 and 230 to 247)\<close>

text \<open>
  The file system is a map from the paths that can be opened for reading to their
  contents. What the program does to it and to \<open>std::cerr\<close> is a list of events.
\<close>

datatype io_event = FileWritten string string | Cerr string

definition newline :: char where
  "newline = CHR 0x0A"

definition quote :: char where
  "quote = CHR 0x27"

text \<open>
  The loop \<open>while (std::getline(input, line))\<close> on the contents of a file: a line ends at
  a newline, which is dropped, or at the end of the file; at the end of the file with no
  character read the call fails and the loop ends.
\<close>

fun getlines :: "string \<Rightarrow> string \<Rightarrow> string list" where
  "getlines line [] = (if line = [] then [] else [line])"
| "getlines line (c # cs) =
     (if c = newline then line # getlines [] cs else getlines (line @ [c]) cs)"

text \<open>The text \<open>output << line << "\n"\<close> writes for each line of the buffer.\<close>

definition written_text :: "string list \<Rightarrow> string" where
  "written_text ls = concat (map (\<lambda>line. line @ [newline]) ls)"

record SaveState =
  just_saved :: bool
  from_file :: bool
  files :: "string \<rightharpoonup> string"

text \<open>
  Lines 91 to 106 and line 156. The result holds the state, the lines given to
  \<open>editor.SetTextLines\<close> (if it is called) and the events.
\<close>

definition startup ::
  "string list \<Rightarrow> (string \<rightharpoonup> string) \<Rightarrow> SaveState \<times> string list option \<times> io_event list" where
  "startup argv fs =
     (if 1 < length argv then
        (case fs (argv ! 1) of
           Some contents \<Rightarrow>
             (\<lparr>just_saved = False, from_file = True, files = fs\<rparr>, Some (getlines [] contents), [])
         | None \<Rightarrow>
             (\<lparr>just_saved = False, from_file = False, files = fs\<rparr>, None,
              [Cerr (''Could not open file '' @ [quote] @ argv ! 1 @ [quote, newline])]))
      else (\<lparr>just_saved = False, from_file = False, files = fs\<rparr>, None, []))"

text \<open>
  What a frame reads for the save block: the two flags of \<open>io\<close>, the key \<open>S\<close>, the lines
  of the editor, and whether \<open>std::ofstream output(argv[1])\<close> opens.
\<close>

record KeyInput =
  WantCaptureKeyboard :: bool
  KeySuper :: bool
  KeyS :: bool
  TextLines :: "string list"
  output_opens :: bool

text \<open>Lines 230 to 247. An opened \<open>ofstream\<close> replaces the contents of the file.\<close>

definition save_handler :: "string list \<Rightarrow> KeyInput \<Rightarrow> SaveState \<Rightarrow> SaveState \<times> io_event list" where
  "save_handler argv inp st =
     (if \<not> WantCaptureKeyboard inp then
        (if KeySuper inp \<and> KeyS inp then
           (if \<not> just_saved st \<and> from_file st then
              (if output_opens inp then
                 (st\<lparr>files := (files st)(argv ! 1 \<mapsto> written_text (TextLines inp)),
                     just_saved := True\<rparr>,
                  [FileWritten (argv ! 1) (written_text (TextLines inp))])
               else
                 (st\<lparr>just_saved := True\<rparr>,
                  [Cerr (''Failed to save to '' @ [quote] @ argv ! 1 @ [quote, newline])]))
            else (st, []))
         else (st\<lparr>just_saved := False\<rparr>, []))
      else (st, []))"

text \<open>The save block over consecutive frames.\<close>

fun save_frames :: "string list \<Rightarrow> KeyInput list \<Rightarrow> SaveState \<Rightarrow> SaveState \<times> io_event list" where
  "save_frames argv [] st = (st, [])"
| "save_frames argv (inp # inps) st =
     (let (st1, ev1) = save_handler argv inp st;
          (st2, ev2) = save_frames argv inps st1
      in (st2, ev1 @ ev2))"

fun is_write :: "io_event \<Rightarrow> bool" where
  "is_write (FileWritten p t) = True"
| "is_write (Cerr t) = False"

text \<open>The chord is seen released: the keyboard is the program's and a key of it is up.\<close>

definition released :: "KeyInput \<Rightarrow> bool" where
  "released inp \<longleftrightarrow> \<not> WantCaptureKeyboard inp \<and> \<not> (KeySuper inp \<and> KeyS inp)"

text \<open>Concrete inputs: the chord held with an edited buffer, on a writable file or not.\<close>

definition chord_ex :: "bool \<Rightarrow> KeyInput" where
  "chord_ex opens = \<lparr>WantCaptureKeyboard = False, KeySuper = True, KeyS = True,
     TextLines = [''sphere(1)'', [], ''box(2)''], output_opens = opens\<rparr>"

definition argv_ex :: "string list" where
  "argv_ex = [''gui'', ''demo.io'']"

definition fs_ex :: "string \<rightharpoonup> string" where
  "fs_ex = [''demo.io'' \<mapsto> ''sphere(1)'']"

section \<open>View transform (main.cpp, lines 116 to 137 and 183 to 228)\<close>

text \<open>
  The view is computed in \<open>float\<close>, and \<open>fmod\<close>, \<open>fmax\<close> and \<open>fmin\<close> in \<open>double\<close>. Here
  every number is a real, \<open>M_PI\<close> is \<open>\<pi>\<close> and every operation is exact: what follows is
  about the arithmetic the code writes down, not about its rounding.
\<close>

type_synonym vec3 = "real \<times> real \<times> real"

type_synonym mat3 = "vec3 \<times> vec3 \<times> vec3"

fun vadd :: "vec3 \<Rightarrow> vec3 \<Rightarrow> vec3" where
  "vadd (a, b, c) (x, y, z) = (a + x, b + y, c + z)"

fun vsub :: "vec3 \<Rightarrow> vec3 \<Rightarrow> vec3" where
  "vsub (a, b, c) (x, y, z) = (a - x, b - y, c - z)"

fun dot :: "vec3 \<Rightarrow> vec3 \<Rightarrow> real" where
  "dot (a, b, c) (x, y, z) = a * x + b * y + c * z"

text \<open>Matrices are triples of rows: matrix times vector, transpose, matrix times matrix.\<close>

fun mv :: "mat3 \<Rightarrow> vec3 \<Rightarrow> vec3" where
  "mv (r1, r2, r3) v = (dot r1 v, dot r2 v, dot r3 v)"

fun transpose3 :: "mat3 \<Rightarrow> mat3" where
  "transpose3 ((a, b, c), (d, e, f), (g, h, i)) = ((a, d, g), (b, e, h), (c, f, i))"

fun mm :: "mat3 \<Rightarrow> mat3 \<Rightarrow> mat3" where
  "mm (r1, r2, r3) B =
     (case transpose3 B of (c1, c2, c3) \<Rightarrow>
        ((dot r1 c1, dot r1 c2, dot r1 c3),
         (dot r2 c1, dot r2 c2, dot r2 c3),
         (dot r3 c1, dot r3 c2, dot r3 c3)))"

definition diagonal :: "vec3 \<Rightarrow> mat3" where
  "diagonal v = (case v of (x, y, z) \<Rightarrow> ((x, 0, 0), (0, y, 0), (0, 0, z)))"

definition identity3 :: mat3 where
  "identity3 = diagonal (1, 1, 1)"

text \<open>
  \<open>Eigen::Affine3f\<close>: a linear part and a translation. The member functions multiply on
  the right, as Eigen defines them: \<open>translate\<close> adds \<open>linear * v\<close> to the translation,
  \<open>scale\<close> and \<open>rotate\<close> multiply the linear part. \<open>compose\<close> is the product of two
  transforms and \<open>transform\<close> the product of a transform and a point.
\<close>

record Affine3 =
  linear :: mat3
  translation :: vec3

definition Identity :: Affine3 where
  "Identity = \<lparr>linear = identity3, translation = (0, 0, 0)\<rparr>"

definition translate :: "vec3 \<Rightarrow> Affine3 \<Rightarrow> Affine3" where
  "translate v A = A\<lparr>translation := vadd (translation A) (mv (linear A) v)\<rparr>"

definition scale :: "real \<Rightarrow> Affine3 \<Rightarrow> Affine3" where
  "scale s A = A\<lparr>linear := mm (linear A) (diagonal (s, s, s))\<rparr>"

definition scale_vec :: "vec3 \<Rightarrow> Affine3 \<Rightarrow> Affine3" where
  "scale_vec v A = A\<lparr>linear := mm (linear A) (diagonal v)\<rparr>"

definition rotate :: "mat3 \<Rightarrow> Affine3 \<Rightarrow> Affine3" where
  "rotate R A = A\<lparr>linear := mm (linear A) R\<rparr>"

definition compose :: "Affine3 \<Rightarrow> Affine3 \<Rightarrow> Affine3" where
  "compose A B =
     \<lparr>linear = mm (linear A) (linear B),
      translation = vadd (mv (linear A) (translation B)) (translation A)\<rparr>"

definition transform :: "Affine3 \<Rightarrow> vec3 \<Rightarrow> vec3" where
  "transform A p = vadd (mv (linear A) p) (translation A)"

text \<open>The rotation matrices of \<open>AngleAxisf(angle, UnitZ())\<close> and \<open>AngleAxisf(angle, UnitX())\<close>.\<close>

definition AngleAxis_UnitZ :: "real \<Rightarrow> mat3" where
  "AngleAxis_UnitZ angle = ((cos angle, - sin angle, 0), (sin angle, cos angle, 0), (0, 0, 1))"

definition AngleAxis_UnitX :: "real \<Rightarrow> mat3" where
  "AngleAxis_UnitX angle = ((1, 0, 0), (0, cos angle, - sin angle), (0, sin angle, cos angle))"

text \<open>
  \<open>Transform::inverse()\<close> of an affine transform: the inverse of the linear part, by
  cofactors and determinant as Eigen does for 3 by 3 matrices, and the translation
  it sends to the origin.
\<close>

fun det3 :: "mat3 \<Rightarrow> real" where
  "det3 ((a, b, c), (d, e, f), (g, h, i)) =
     a * (e * i - f * h) - b * (d * i - f * g) + c * (d * h - e * g)"

fun inverse3 :: "mat3 \<Rightarrow> mat3" where
  "inverse3 ((a, b, c), (d, e, f), (g, h, i)) =
     (let D = det3 ((a, b, c), (d, e, f), (g, h, i)) in
      (((e * i - f * h) / D, (c * h - b * i) / D, (b * f - c * e) / D),
       ((f * g - d * i) / D, (a * i - c * g) / D, (c * d - a * f) / D),
       ((d * h - e * g) / D, (b * g - a * h) / D, (a * e - b * d) / D)))"

definition inverse_affine :: "Affine3 \<Rightarrow> Affine3" where
  "inverse_affine A =
     \<lparr>linear = inverse3 (linear A),
      translation = vsub (0, 0, 0) (mv (inverse3 (linear A)) (translation A))\<rparr>"

text \<open>Lines 117 to 120: the view, as it starts.\<close>

record ViewState =
  view_center :: vec3
  view_scale :: real
  view_pitch :: real
  view_yaw :: real

definition initial_view :: ViewState where
  "initial_view = \<lparr>view_center = (0, 0, 0), view_scale = 2, view_pitch = 0, view_yaw = 0\<rparr>"

text \<open>
  \<open>update_mats\<close> (lines 125 to 136) sets \<open>model\<close> from the view and \<open>view\<close> from the size
  of the display. It runs at the start of a frame and after every change of the view, so
  the two matrices are functions of the current view and display size. The quotient
  \<open>2 / max w h\<close> is the one of the code for a display of positive size only.
\<close>

definition model_of :: "ViewState \<Rightarrow> Affine3" where
  "model_of st =
     rotate (AngleAxis_UnitX (view_pitch st))
       (rotate (AngleAxis_UnitZ (view_yaw st))
         (scale (view_scale st)
           (translate (view_center st) Identity)))"

definition view_of :: "real \<times> real \<Rightarrow> Affine3" where
  "view_of DisplaySize =
     (case DisplaySize of (w, h) \<Rightarrow>
        (let s = 2 / max w h
         in translate (- w / 2, - h / 2, 0) (scale_vec (s, - s, 1) Identity)))"

text \<open>\<open>model * view * p\<close>, the point of the world the code takes for the pixel \<open>p\<close>.\<close>

definition model_view_point :: "ViewState \<Rightarrow> real \<times> real \<Rightarrow> vec3 \<Rightarrow> vec3" where
  "model_view_point st DisplaySize p = transform (compose (model_of st) (view_of DisplaySize)) p"

text \<open>\<open>(model * view).inverse() * p\<close>, which lines 427 to 429 use to draw the axes.\<close>

definition inverse_model_view_point :: "ViewState \<Rightarrow> real \<times> real \<Rightarrow> vec3 \<Rightarrow> vec3" where
  "inverse_model_view_point st DisplaySize p =
     transform (inverse_affine (compose (model_of st) (view_of DisplaySize))) p"

text \<open>
  Lines 189 to 196, panning: \<open>mouse\<close> is the position of the pointer in this frame and
  \<open>drag\<close> its displacement since the drag started or was last reset.
\<close>

definition pan :: "real \<times> real \<Rightarrow> vec3 \<Rightarrow> vec3 \<Rightarrow> ViewState \<Rightarrow> ViewState" where
  "pan DisplaySize mouse drag st =
     st\<lparr>view_center :=
          vadd (view_center st)
            (vsub (model_view_point st DisplaySize (vsub mouse drag))
                  (model_view_point st DisplaySize mouse))\<rparr>"

text \<open>
  \<open>fmod(x, y)\<close> of the C library: \<open>x - n * y\<close> with \<open>n\<close> the quotient \<open>x / y\<close> rounded
  towards zero, so the result has the sign of \<open>x\<close>.
\<close>

definition trunc :: "real \<Rightarrow> int" where
  "trunc x = (if 0 \<le> x then \<lfloor>x\<rfloor> else \<lceil>x\<rceil>)"

definition fmod :: "real \<Rightarrow> real \<Rightarrow> real" where
  "fmod x y = x - of_int (trunc (x / y)) * y"

definition M_PI :: real where
  "M_PI = pi"

text \<open>Lines 198 to 207, rotating: \<open>d\<close> is the displacement of the drag with button 1.\<close>

definition rotate_view :: "real \<times> real \<Rightarrow> ViewState \<Rightarrow> ViewState" where
  "rotate_view d st =
     (case d of (dx, dy) \<Rightarrow>
        (let yaw = view_yaw st - dx / 100;
             pitch = view_pitch st - dy / 100;
             pitch = max (- M_PI / 2) pitch;
             pitch = min (M_PI / 2) pitch;
             yaw = fmod yaw (2 * M_PI)
         in st\<lparr>view_pitch := pitch, view_yaw := yaw\<rparr>))"

text \<open>Lines 209 to 227, scrolling; \<open>powf(1.01f, scroll)\<close> is the real power.\<close>

definition zoom :: "real \<times> real \<Rightarrow> vec3 \<Rightarrow> real \<Rightarrow> ViewState \<Rightarrow> ViewState" where
  "zoom DisplaySize mouse scroll st =
     (let start = model_view_point st DisplaySize mouse;
          st1 = st\<lparr>view_scale := view_scale st * (1.01 powr scroll)\<rparr>;
          end_point = model_view_point st1 DisplaySize mouse
      in st1\<lparr>view_center := vsub (view_center st1) (vsub end_point start)\<rparr>)"

text \<open>What a frame reads from the pointer, and the block of lines 184 to 228.\<close>

record MouseInput =
  WantCaptureMouse :: bool
  MousePos :: "real \<times> real"
  MouseDragging0 :: bool
  MouseDragDelta0 :: "real \<times> real"
  MouseDragging1 :: bool
  MouseDragDelta1 :: "real \<times> real"
  MouseWheel :: real

definition mouse_block :: "real \<times> real \<Rightarrow> MouseInput \<Rightarrow> ViewState \<Rightarrow> ViewState" where
  "mouse_block DisplaySize inp st =
     (if \<not> WantCaptureMouse inp then
        (let mouse = (fst (MousePos inp), snd (MousePos inp), 0);
             st1 = (if MouseDragging0 inp
                    then pan DisplaySize mouse
                           (fst (MouseDragDelta0 inp), snd (MouseDragDelta0 inp), 0) st
                    else st);
             st2 = (if MouseDragging1 inp then rotate_view (MouseDragDelta1 inp) st1 else st1);
             st3 = (if MouseWheel inp \<noteq> 0
                    then zoom DisplaySize mouse (MouseWheel inp) st2 else st2)
         in st3)
      else st)"

fun mouse_frames :: "real \<times> real \<Rightarrow> MouseInput list \<Rightarrow> ViewState \<Rightarrow> ViewState" where
  "mouse_frames DisplaySize [] st = st"
| "mouse_frames DisplaySize (inp # inps) st =
     mouse_frames DisplaySize inps (mouse_block DisplaySize inp st)"

text \<open>A frame that only rotates, by a drag of 100 pixels to the right.\<close>

definition rotate_ex :: MouseInput where
  "rotate_ex = \<lparr>WantCaptureMouse = False, MousePos = (612, 256), MouseDragging0 = False,
     MouseDragDelta0 = (0, 0), MouseDragging1 = True, MouseDragDelta1 = (100, 0),
     MouseWheel = 0\<rparr>"

section \<open>Properties of the synchronization\<close>

lemma keys_Nil: "keys [] = {}"
  by (simp add: keys_def)

lemma keys_Cons: "keys ((k, v) # m) = insert k (keys m)"
  by (simp add: keys_def)

lemma find_key_None_iff: "find_key m k = None \<longleftrightarrow> k \<notin> keys m"
  by (simp add: find_key_def keys_def map_of_eq_None_iff)

lemma keys_emplace: "keys (emplace k v m) = insert k (keys m)"
  by (induction k v m rule: emplace.induct) (auto simp: keys_def)

lemma find_key_emplace_other: "k' \<noteq> k \<Longrightarrow> find_key (emplace k v m) k' = find_key m k'"
  by (induction k v m rule: emplace.induct) (auto simp: find_key_def)

lemma distinct_emplace:
  "k \<notin> keys m \<Longrightarrow> distinct (map fst m) \<Longrightarrow> distinct (map fst (emplace k v m))"
proof (induction k v m rule: emplace.induct)
  case (1 k v)
  then show ?case by simp
next
  case (2 k v k' v' rest)
  have "fst ` set (emplace k v rest) = insert k (fst ` set rest)"
    using keys_emplace [of k v rest] by (simp add: keys_def)
  with 2 show ?case by (auto simp: keys_def)
qed

lemma sorted_emplace:
  "sorted (map fst m) \<Longrightarrow> sorted (map fst (emplace k v m))"
proof (induction k v m rule: emplace.induct)
  case (1 k v)
  then show ?case by simp
next
  case (2 k v k' v' rest)
  have "fst ` set (emplace k v rest) = insert k (fst ` set rest)"
    using keys_emplace [of k v rest] by (simp add: keys_def)
  with 2 show ?case by auto
qed

lemma erase_loop_fst:
  "fst (erase_loop live m) = filter (\<lambda>p. find_key live (fst p) \<noteq> None) m"
  by (induction m) (auto simp: split_def Let_def)

lemma erase_loop_snd:
  "snd (erase_loop live m) =
     map (\<lambda>p. Release (fst p)) (filter (\<lambda>p. find_key live (fst p) = None) m)"
  by (induction m) (auto simp: split_def Let_def)

lemma keys_erase_loop: "keys (fst (erase_loop live m)) = keys m \<inter> keys live"
  unfolding erase_loop_fst find_key_None_iff by (force simp: keys_def)

lemma distinct_erase_loop:
  "distinct (map fst m) \<Longrightarrow> distinct (map fst (fst (erase_loop live m)))"
  by (simp add: erase_loop_fst distinct_map_filter)

lemma find_key_erase_loop:
  "find_key live k \<noteq> None \<Longrightarrow> find_key (fst (erase_loop live m)) k = find_key m k"
  by (induction m) (auto simp: find_key_def split_def Let_def)

lemma count_release:
  "distinct (map fst m) \<Longrightarrow>
   count_list (snd (erase_loop live m)) (Release k) =
     (if k \<in> keys m - keys live then 1 else 0)"
proof (induction m)
  case Nil
  then show ?case by (simp add: keys_def)
next
  case (Cons p m)
  obtain k' s where p: "p = (k', s)" by (cases p)
  have "k' \<notin> keys m" using Cons.prems p by (simp add: keys_def)
  with Cons p show ?case
    by (auto simp: keys_Cons find_key_None_iff split_def Let_def)
qed

lemma count_compile_release [simp]:
  "count_list (snd (erase_loop live m)) (Compile k) = 0"
  by (induction m) (auto simp: split_def Let_def)

lemma in_keysI: "(k, v) \<in> set m \<Longrightarrow> k \<in> keys m"
  by (force simp: keys_def)

lemma create_loop_total:
  assumes "distinct (map fst live)"
      and "\<forall>(k, t) \<in> set live. k \<notin> keys shapes \<longrightarrow> (\<exists>tp. Tape t = Inr tp)"
      and "distinct (map fst shapes)"
  shows "\<exists>shapes' ev. create_loop Tape live shapes = Inr (shapes', ev)
     \<and> keys shapes' = keys shapes \<union> keys live
     \<and> distinct (map fst shapes')
     \<and> (\<forall>k. count_list ev (Release k) = 0)
     \<and> (\<forall>k. count_list ev (Compile k) = (if k \<in> keys live - keys shapes then 1 else 0))
     \<and> (\<forall>k \<in> keys shapes. find_key shapes' k = find_key shapes k)
     \<and> (\<forall>(k, t) \<in> set live. k \<notin> keys shapes \<longrightarrow>
           (\<exists>tp. Tape t = Inr tp \<and> find_key shapes' k = Some \<lparr>tape = tp, tree = t\<rparr>))"
  using assms
proof (induction live arbitrary: shapes)
  case Nil
  then show ?case by (simp add: keys_def)
next
  case (Cons p live)
  obtain k t where p: "p = (k, t)" by (cases p)
  from Cons.prems(1) p have dl: "distinct (map fst live)" and knl: "k \<notin> keys live"
    by (auto simp: keys_def)
  show ?case
  proof (cases "k \<in> keys shapes")
    case True
    have h: "\<forall>(k, t) \<in> set live. k \<notin> keys shapes \<longrightarrow> (\<exists>tp. Tape t = Inr tp)"
      using Cons.prems(2) by auto
    from Cons.IH [OF dl h Cons.prems(3)] obtain shapes' ev where
      r: "create_loop Tape live shapes = Inr (shapes', ev)"
        "keys shapes' = keys shapes \<union> keys live"
        "distinct (map fst shapes')"
        "\<forall>k. count_list ev (Release k) = 0"
        "\<forall>k. count_list ev (Compile k) = (if k \<in> keys live - keys shapes then 1 else 0)"
        "\<forall>k \<in> keys shapes. find_key shapes' k = find_key shapes k"
        "\<forall>(k, t) \<in> set live. k \<notin> keys shapes \<longrightarrow>
           (\<exists>tp. Tape t = Inr tp \<and> find_key shapes' k = Some \<lparr>tape = tp, tree = t\<rparr>)"
      by blast
    have c: "create_loop Tape (p # live) shapes = Inr (shapes', ev)"
      using True r(1) p by (simp add: find_key_None_iff)
    show ?thesis
      using c r True p by (auto simp: keys_Cons)
  next
    case False
    from Cons.prems(2) p False obtain tp where tp: "Tape t = Inr tp" by auto
    let ?s = "emplace k \<lparr>tape = tp, tree = t\<rparr> shapes"
    have ks: "keys ?s = insert k (keys shapes)" by (rule keys_emplace)
    have ds: "distinct (map fst ?s)"
      using False Cons.prems(3) by (rule distinct_emplace)
    have h: "\<forall>(k, t) \<in> set live. k \<notin> keys ?s \<longrightarrow> (\<exists>tp. Tape t = Inr tp)"
      using Cons.prems(2) ks by auto
    from Cons.IH [OF dl h ds] obtain shapes' ev where
      r: "create_loop Tape live ?s = Inr (shapes', ev)"
        "keys shapes' = keys ?s \<union> keys live"
        "distinct (map fst shapes')"
        "\<forall>k. count_list ev (Release k) = 0"
        "\<forall>k. count_list ev (Compile k) = (if k \<in> keys live - keys ?s then 1 else 0)"
        "\<forall>k \<in> keys ?s. find_key shapes' k = find_key ?s k"
        "\<forall>(k, t) \<in> set live. k \<notin> keys ?s \<longrightarrow>
           (\<exists>tp. Tape t = Inr tp \<and> find_key shapes' k = Some \<lparr>tape = tp, tree = t\<rparr>)"
      by blast
    have c: "create_loop Tape (p # live) shapes = Inr (shapes', Compile k # ev)"
      using False r(1) p tp by (simp add: find_key_None_iff)
    have fk: "find_key ?s k = Some \<lparr>tape = tp, tree = t\<rparr>"
      using False by (induction shapes) (auto simp: find_key_def keys_def)
    have a1: "keys shapes' = keys shapes \<union> keys (p # live)"
      using r(2) ks p by (auto simp: keys_Cons)
    have a2: "\<forall>k'. count_list (Compile k # ev) (Release k') = 0"
      using r(4) by simp
    have a3: "\<forall>k'. count_list (Compile k # ev) (Compile k') =
        (if k' \<in> keys (p # live) - keys shapes then 1 else 0)"
      using r(5) ks p knl False by (auto simp: keys_Cons)
    have a4: "\<forall>k' \<in> keys shapes. find_key shapes' k' = find_key shapes k'"
    proof
      fix k' assume k': "k' \<in> keys shapes"
      with False have ne: "k' \<noteq> k" by auto
      from k' ks have "find_key shapes' k' = find_key ?s k'" using r(6) by auto
      also have "\<dots> = find_key shapes k'" using ne by (rule find_key_emplace_other)
      finally show "find_key shapes' k' = find_key shapes k'" .
    qed
    have a5: "\<forall>(k', t') \<in> set (p # live). k' \<notin> keys shapes \<longrightarrow>
           (\<exists>tp. Tape t' = Inr tp \<and> find_key shapes' k' = Some \<lparr>tape = tp, tree = t'\<rparr>)"
    proof -
      have "find_key shapes' k = Some \<lparr>tape = tp, tree = t\<rparr>"
        using r(6) ks fk by auto
      moreover have "\<forall>(k', t') \<in> set live. k' \<notin> keys shapes \<longrightarrow>
           (\<exists>tp. Tape t' = Inr tp \<and> find_key shapes' k' = Some \<lparr>tape = tp, tree = t'\<rparr>)"
      proof (clarify)
        fix k' t' assume m: "(k', t') \<in> set live" and n: "k' \<notin> keys shapes"
        from m knl have "k' \<noteq> k" by (auto dest: in_keysI)
        with n ks have "k' \<notin> keys ?s" by simp
        with r(7) m show "\<exists>tp. Tape t' = Inr tp \<and> find_key shapes' k' = Some \<lparr>tape = tp, tree = t'\<rparr>"
          by blast
      qed
      ultimately show ?thesis using p tp by auto
    qed
    show ?thesis using c a1 r(3) a2 a3 a4 a5 by blast
  qed
qed

text \<open>
  Claim C1. Let the owned map hold the identities A and the script define the
  identities B, and let every expression of an identity of B outside A compile. Then the
  synchronization completes; the key set of the owned map is B; an identity of A outside
  B is released exactly once and no other identity is released; an identity of B outside
  A is compiled exactly once, and its entry holds that tape and the script's tree; no
  other identity is compiled; the entry of an identity in both A and B is the one the
  map held before, whatever expression the script binds to it now.
\<close>

theorem synchronize_transition:
  assumes "distinct (map fst shapes)" and "distinct (map fst live)"
      and "\<forall>(k, t) \<in> set live. k \<notin> keys shapes \<longrightarrow> (\<exists>tp. Tape t = Inr tp)"
  shows "\<exists>shapes' ev. synchronize Tape live shapes = Inr (shapes', ev)
     \<and> keys shapes' = keys live
     \<and> distinct (map fst shapes')
     \<and> (\<forall>k. count_list ev (Release k) = (if k \<in> keys shapes - keys live then 1 else 0))
     \<and> (\<forall>k. count_list ev (Compile k) = (if k \<in> keys live - keys shapes then 1 else 0))
     \<and> (\<forall>k \<in> keys shapes \<inter> keys live. find_key shapes' k = find_key shapes k)
     \<and> (\<forall>(k, t) \<in> set live. k \<notin> keys shapes \<longrightarrow>
           (\<exists>tp. Tape t = Inr tp \<and> find_key shapes' k = Some \<lparr>tape = tp, tree = t\<rparr>))"
proof -
  obtain s1 e1 where e: "erase_loop live shapes = (s1, e1)" by (cases "erase_loop live shapes")
  have ks1: "keys s1 = keys shapes \<inter> keys live"
    using keys_erase_loop [of live shapes] e by simp
  have ds1: "distinct (map fst s1)"
    using distinct_erase_loop [OF assms(1), of live] e by simp
  have h: "\<forall>(k, t) \<in> set live. k \<notin> keys s1 \<longrightarrow> (\<exists>tp. Tape t = Inr tp)"
  proof (clarify)
    fix k t assume m: "(k, t) \<in> set live" and n: "k \<notin> keys s1"
    from m have "k \<in> keys live" by (rule in_keysI)
    with n ks1 have "k \<notin> keys shapes" by simp
    with assms(3) m show "\<exists>tp. Tape t = Inr tp" by blast
  qed
  from create_loop_total [OF assms(2) h ds1] obtain shapes' ev where
    r: "create_loop Tape live s1 = Inr (shapes', ev)"
       "keys shapes' = keys s1 \<union> keys live"
       "distinct (map fst shapes')"
       "\<forall>k. count_list ev (Release k) = 0"
       "\<forall>k. count_list ev (Compile k) = (if k \<in> keys live - keys s1 then 1 else 0)"
       "\<forall>k \<in> keys s1. find_key shapes' k = find_key s1 k"
       "\<forall>(k, t) \<in> set live. k \<notin> keys s1 \<longrightarrow>
           (\<exists>tp. Tape t = Inr tp \<and> find_key shapes' k = Some \<lparr>tape = tp, tree = t\<rparr>)"
    by blast
  have s: "synchronize Tape live shapes = Inr (shapes', e1 @ ev)"
    using e r(1) by (simp add: synchronize_def)
  have b1: "keys shapes' = keys live" using r(2) ks1 by auto
  have b2: "\<forall>k. count_list (e1 @ ev) (Release k) = (if k \<in> keys shapes - keys live then 1 else 0)"
    using count_release [OF assms(1), of live] e r(4) by simp
  have b3: "\<forall>k. count_list (e1 @ ev) (Compile k) = (if k \<in> keys live - keys shapes then 1 else 0)"
    using count_compile_release [of live shapes] e r(5) ks1 by auto
  have b4: "\<forall>k \<in> keys shapes \<inter> keys live. find_key shapes' k = find_key shapes k"
  proof
    fix k assume k: "k \<in> keys shapes \<inter> keys live"
    then have "find_key live k \<noteq> None" by (simp add: find_key_None_iff)
    then have "find_key s1 k = find_key shapes k"
      using find_key_erase_loop [of live k shapes] e by simp
    with k ks1 r(6) show "find_key shapes' k = find_key shapes k" by auto
  qed
  have b5: "\<forall>(k, t) \<in> set live. k \<notin> keys shapes \<longrightarrow>
           (\<exists>tp. Tape t = Inr tp \<and> find_key shapes' k = Some \<lparr>tape = tp, tree = t\<rparr>)"
  proof (clarify)
    fix k t assume m: "(k, t) \<in> set live" and n: "k \<notin> keys shapes"
    from n ks1 have "k \<notin> keys s1" by simp
    with r(7) m show "\<exists>tp. Tape t = Inr tp \<and> find_key shapes' k = Some \<lparr>tape = tp, tree = t\<rparr>"
      by blast
  qed
  show ?thesis using s b1 r(3) b2 b3 b4 b5 by blast
qed

theorem synchronize_transition_witness:
  "distinct (map fst shapes_ex) \<and> distinct (map fst live_ex)
   \<and> keys live_ex - keys shapes_ex = {1} \<and> Tape_ex ''a'' = Inr ''tape of a''
   \<and> (\<exists>shapes' ev. synchronize Tape_ex live_ex shapes_ex = Inr (shapes', ev)
     \<and> keys shapes' = keys live_ex
     \<and> distinct (map fst shapes')
     \<and> (\<forall>k. count_list ev (Release k) = (if k \<in> keys shapes_ex - keys live_ex then 1 else 0))
     \<and> (\<forall>k. count_list ev (Compile k) = (if k \<in> keys live_ex - keys shapes_ex then 1 else 0))
     \<and> (\<forall>k \<in> keys shapes_ex \<inter> keys live_ex. find_key shapes' k = find_key shapes_ex k)
     \<and> (\<forall>(k, t) \<in> set live_ex. k \<notin> keys shapes_ex \<longrightarrow>
           (\<exists>tp. Tape_ex t = Inr tp \<and> find_key shapes' k = Some \<lparr>tape = tp, tree = t\<rparr>)))"
proof -
  have h1: "distinct (map fst shapes_ex)" by (simp add: shapes_ex_def)
  have h2: "distinct (map fst live_ex)" by (simp add: live_ex_def)
  have h3: "\<forall>(k, t) \<in> set live_ex. k \<notin> keys shapes_ex \<longrightarrow> (\<exists>tp. Tape_ex t = Inr tp)"
    by (simp add: live_ex_def shapes_ex_def keys_def Tape_ex_def)
  have h4: "keys live_ex - keys shapes_ex = {1}" "Tape_ex ''a'' = Inr ''tape of a''"
    by (auto simp: live_ex_def shapes_ex_def keys_def Tape_ex_def)
  show ?thesis
    using h1 h2 h4 synchronize_transition [OF h1 h2 h3] by blast
qed

lemma synchronize_ex:
  "synchronize Tape_ex live_ex shapes_ex =
     Inr ([(1, \<lparr>tape = ''tape of a'', tree = ''a''\<rparr>), (2, \<lparr>tape = ''tape of b'', tree = ''b''\<rparr>)],
          [Release 3, Compile 1])"
  by (simp add: synchronize_def live_ex_def shapes_ex_def Tape_ex_def find_key_def)

lemma create_loop_fails:
  "distinct (map fst live) \<Longrightarrow>
   (\<exists>e. create_loop Tape live shapes = Inl e) \<longleftrightarrow>
   (\<exists>(k, t) \<in> set live. k \<notin> keys shapes \<and> (\<exists>e. Tape t = Inl e))"
proof (induction live arbitrary: shapes)
  case Nil
  then show ?case by simp
next
  case (Cons p live)
  obtain k t where p: "p = (k, t)" by (cases p)
  from Cons.prems p have dl: "distinct (map fst live)" and knl: "k \<notin> keys live"
    by (auto simp: keys_def)
  note IH = Cons.IH [OF dl]
  show ?case
  proof (cases "k \<in> keys shapes")
    case True
    then have "create_loop Tape (p # live) shapes = create_loop Tape live shapes"
      using p by (simp add: find_key_None_iff)
    with IH [of shapes] True p show ?thesis by auto
  next
    case False
    show ?thesis
    proof (cases "Tape t")
      case (Inl e)
      then have "create_loop Tape (p # live) shapes = Inl e"
        using False p by (simp add: find_key_None_iff)
      with Inl False p show ?thesis by auto
    next
      case (Inr tp)
      let ?s = "emplace k \<lparr>tape = tp, tree = t\<rparr> shapes"
      have ks: "keys ?s = insert k (keys shapes)" by (rule keys_emplace)
      have c: "(\<exists>e. create_loop Tape (p # live) shapes = Inl e) \<longleftrightarrow>
               (\<exists>e. create_loop Tape live ?s = Inl e)"
        using False p Inr by (auto simp: find_key_None_iff split: sum.splits)
      have "(\<exists>(k', t') \<in> set live. k' \<notin> keys ?s \<and> (\<exists>e. Tape t' = Inl e)) \<longleftrightarrow>
            (\<exists>(k', t') \<in> set live. k' \<notin> keys shapes \<and> (\<exists>e. Tape t' = Inl e))"
      proof -
        have "\<And>k' t'. (k', t') \<in> set live \<Longrightarrow> k' \<notin> keys ?s \<longleftrightarrow> k' \<notin> keys shapes"
          using ks knl by (auto dest: in_keysI)
        then show ?thesis by blast
      qed
      with c IH [of ?s] Inr p show ?thesis by auto
    qed
  qed
qed

text \<open>
  Claim C8, as the code has it. The constructor call has no handler: the synchronization
  ends with an exception, and produces no compiled set for the frame, exactly when the
  expression of some identity of the script that the owned map does not hold fails to
  compile. Nothing is reported and no identity is left out with the others kept.
\<close>

theorem synchronize_failure:
  "distinct (map fst live) \<Longrightarrow>
   (\<exists>e. synchronize Tape live shapes = Inl e) \<longleftrightarrow>
   (\<exists>(k, t) \<in> set live. k \<notin> keys shapes \<and> (\<exists>e. Tape t = Inl e))"
proof -
  assume d: "distinct (map fst live)"
  obtain s1 e1 where e: "erase_loop live shapes = (s1, e1)" by (cases "erase_loop live shapes")
  have ks1: "keys s1 = keys shapes \<inter> keys live"
    using keys_erase_loop [of live shapes] e by simp
  have "(\<exists>e. synchronize Tape live shapes = Inl e) \<longleftrightarrow> (\<exists>e. create_loop Tape live s1 = Inl e)"
    using e by (auto simp: synchronize_def split: sum.splits)
  also have "\<dots> \<longleftrightarrow> (\<exists>(k, t) \<in> set live. k \<notin> keys s1 \<and> (\<exists>e. Tape t = Inl e))"
    using d by (rule create_loop_fails)
  also have "\<dots> \<longleftrightarrow> (\<exists>(k, t) \<in> set live. k \<notin> keys shapes \<and> (\<exists>e. Tape t = Inl e))"
  proof -
    have "\<And>k t. (k, t) \<in> set live \<Longrightarrow> k \<notin> keys s1 \<longleftrightarrow> k \<notin> keys shapes"
      using ks1 by (auto dest: in_keysI)
    then show ?thesis by blast
  qed
  finally show ?thesis .
qed

theorem synchronize_failure_witness:
  "distinct (map fst live_bad) \<and>
   ((\<exists>e. synchronize Tape_ex live_bad shapes_bad = Inl e) \<longleftrightarrow>
    (\<exists>(k, t) \<in> set live_bad. k \<notin> keys shapes_bad \<and> (\<exists>e. Tape_ex t = Inl e))) \<and>
   (\<exists>(k, t) \<in> set live_bad. k \<notin> keys shapes_bad \<and> (\<exists>e. Tape_ex t = Inl e))"
proof -
  have h: "distinct (map fst live_bad)" by (simp add: live_bad_def)
  have w: "\<exists>(k, t) \<in> set live_bad. k \<notin> keys shapes_bad \<and> (\<exists>e. Tape_ex t = Inl e)"
    by (simp add: live_bad_def shapes_bad_def keys_def Tape_ex_def)
  show ?thesis using h w synchronize_failure [OF h, of Tape_ex shapes_bad] by blast
qed

text \<open>
  The owned map holds 2, the script defines 1, 2 and 4, and 1 does not compile. A step
  that reports the failure and leaves 1 out ends with the entries of 2 and 4 and one
  compile call, for 4. The step of the code ends with the exception of the constructor.
\<close>

theorem compile_failure_counterexample:
  "synchronize Tape_ex live_bad shapes_bad = Inl TapeError \<and>
   synchronize Tape_ex live_bad shapes_bad \<noteq>
     Inr ([(2, \<lparr>tape = ''tape of b'', tree = ''b''\<rparr>), (4, \<lparr>tape = ''tape of d'', tree = ''d''\<rparr>)],
          [Compile 4])"
  by (simp add: synchronize_def live_bad_def shapes_bad_def Tape_ex_def find_key_def)

section \<open>Properties of the rendering\<close>

lemma upt_0_2: "[0..<2] = [0, Suc 0]"
  by (simp add: numeral_2_eq_2 upt_conv_Cons)

lemma mat2d_of_4x4:
  "mat2d_of [[m00, m01, m02, m03], [m10, m11, m12, m13], [m20, m21, m22, m23], [m30, m31, m32, m33]]
     = [[m00, m01, m03], [m10, m11, m13], [m30, m31, m33]]"
  by (simp add: mat2d_of_def assign_block_def set_coeff_def coeff_def numeral_3_eq_3
      numeral_2_eq_2 upt_0_2 Let_def)

text \<open>
  Claim C6. On the 2D path (\<open>render_dimension == 2\<close>) the pass of a shape calls
  \<open>render2D\<close> with the 3 by 3 matrix made of the coefficients of the 4 by 4 model matrix
  in rows 0, 1, 3 and columns 0, 1, 3: the top left 2 by 2 block, the entries (0..1, 3) as
  column 2, the entries (3, 0..1) as row 2, and the entry (3, 3) at (2, 2). Nothing of
  the uninitialised \<open>mat2d\<close> is left in it.
\<close>

theorem plane_submatrix:
  "render_pass 2 mode
     [[m00, m01, m02, m03], [m10, m11, m12, m13], [m20, m21, m22, m23], [m30, m31, m32, m33]]
     c a tp =
   Render2D c tp [[m00, m01, m03], [m10, m11, m13], [m30, m31, m33]]
   # (if mode = RENDER_MODE_SSAO then [DrawSSAO c]
      else if mode = RENDER_MODE_SHADED then [DrawShaded c] else [])
   @ [CopyToTexture c a mode]"
  by (simp add: render_pass_def mat2d_of_4x4)

lemma copy_flags_append: "copy_flags (xs @ ys) = copy_flags xs @ copy_flags ys"
  by (induction xs rule: copy_flags.induct) simp_all

lemma copy_flags_render_pass: "copy_flags (render_pass d m mat c a tp) = [a]"
  by (simp add: render_pass_def)

lemma copy_flags_shapes_loop:
  "copy_flags (shapes_loop d m mat c a shapes) =
     (case shapes of [] \<Rightarrow> [] | s # rest \<Rightarrow> a # replicate (length rest) True)"
proof (induction shapes arbitrary: a)
  case Nil
  show ?case by simp
next
  case (Cons p shapes)
  obtain k s where p: "p = (k, s)" by (cases p)
  show ?case
    using Cons [of True] p
    by (cases shapes) (simp_all add: copy_flags_append copy_flags_render_pass)
qed

text \<open>
  Claim C5. In every frame of a run, whatever the frames before it drew, the copies to
  the texture are one per shape of the owned map, in its order, the first with
  \<open>append = false\<close> and every later one with \<open>append = true\<close>.
\<close>

theorem append_flag_per_frame:
  "map copy_flags (render_frames d m mat c frames) =
     map (\<lambda>shapes. case shapes of [] \<Rightarrow> [] | s # rest \<Rightarrow> False # replicate (length rest) True)
       frames"
  by (induction frames) (simp_all add: shapes_window_def copy_flags_shapes_loop)

lemma context_of_render_pass:
  "call \<in> set (render_pass d m mat c a tp) \<Longrightarrow> context_of call = Some c"
  by (auto simp: render_pass_def split: if_splits)

lemma context_of_shapes_loop:
  "call \<in> set (shapes_loop d m mat c a shapes) \<Longrightarrow> context_of call = Some c"
proof (induction shapes arbitrary: a)
  case Nil
  then show ?case by simp
next
  case (Cons p shapes)
  obtain k s where p: "p = (k, s)" by (cases p)
  from Cons.prems p
  have "call \<in> set (render_pass d m mat c a (tape s)) \<or>
        call \<in> set (shapes_loop d m mat c True shapes)"
    by simp
  then show ?case
    using Cons.IH [of True] by (auto dest: context_of_render_pass)
qed

text \<open>
  Claim C7. In a frame whose requested size differs from \<open>ctx.image_size_px\<close>, the calls
  of the frame start with the allocation of a context of the requested size, on buffers
  the old context does not own, and the release of the old one; every render, effect and
  copy call of the frame comes after them and is given the new context, none the old.
\<close>

theorem resize_before_render:
  assumes "requested_size inp (render_size st) \<noteq> image_size_px (ctx st)"
      and "buffers (ctx st) < next_buffers st"
  shows "\<exists>st1 c1. frame_calls inp (mat :: 'a list list) (shapes :: (Id \<times> ('tape, 'tree) Shape) list) st =
           (st1, [ContextAlloc c1, ContextFree (ctx st)]
                 @ shapes_window (render_dimension st1) (render_mode st1) mat c1 shapes)
     \<and> ctx st1 = c1
     \<and> render_size st1 = requested_size inp (render_size st)
     \<and> image_size_px c1 = requested_size inp (render_size st)
     \<and> buffers c1 \<noteq> buffers (ctx st)
     \<and> buffers c1 < next_buffers st1
     \<and> (\<forall>call \<in> set (shapes_window (render_dimension st1) (render_mode st1) mat c1 shapes).
           context_of call = Some c1 \<and> context_of call \<noteq> Some (ctx st))"
proof -
  let ?c1 = "\<lparr>image_size_px = requested_size inp (render_size st), buffers = next_buffers st\<rparr>"
  obtain st1 calls where
    s: "(settings_window inp st :: RenderState \<times> ('tape, 'a) gpu_call list) = (st1, calls)"
    by (cases "settings_window inp st :: RenderState \<times> ('tape, 'a) gpu_call list")
  from s assms(1) have c: "calls = [ContextAlloc ?c1, ContextFree (ctx st)]"
    and st1: "ctx st1 = ?c1" "render_size st1 = requested_size inp (render_size st)"
      "next_buffers st1 = Suc (next_buffers st)"
    by (auto simp: settings_window_def new_Context_def Let_def)
  have f: "frame_calls inp mat shapes st =
      (st1, [ContextAlloc ?c1, ContextFree (ctx st)]
            @ shapes_window (render_dimension st1) (render_mode st1) mat ?c1 shapes)"
    using s c st1 by (simp add: frame_calls_def)
  have ne: "?c1 \<noteq> ctx st" using assms(2) by (cases "ctx st") auto
  have all: "\<forall>call \<in> set (shapes_window (render_dimension st1) (render_mode st1) mat ?c1 shapes).
           context_of call = Some ?c1 \<and> context_of call \<noteq> Some (ctx st)"
    using ne by (auto simp: shapes_window_def dest: context_of_shapes_loop)
  have nb: "buffers ?c1 \<noteq> buffers (ctx st)" "buffers ?c1 < next_buffers st1"
    using assms(2) st1(3) by simp_all
  have sz: "image_size_px ?c1 = requested_size inp (render_size st)" by simp
  show ?thesis
    using f st1(1,2) sz nb all by blast
qed

theorem resize_before_render_witness:
  "requested_size press_512_ex (render_size initial_render) \<noteq> image_size_px (ctx initial_render)
   \<and> buffers (ctx initial_render) < next_buffers initial_render
   \<and> (\<exists>st1 c1. frame_calls press_512_ex mat_ex shapes_ex initial_render =
           (st1, [ContextAlloc c1, ContextFree (ctx initial_render)]
                 @ shapes_window (render_dimension st1) (render_mode st1) mat_ex c1 shapes_ex)
     \<and> ctx st1 = c1
     \<and> render_size st1 = requested_size press_512_ex (render_size initial_render)
     \<and> image_size_px c1 = requested_size press_512_ex (render_size initial_render)
     \<and> buffers c1 \<noteq> buffers (ctx initial_render)
     \<and> buffers c1 < next_buffers st1
     \<and> (\<forall>call \<in> set (shapes_window (render_dimension st1) (render_mode st1) mat_ex c1 shapes_ex).
           context_of call = Some c1 \<and> context_of call \<noteq> Some (ctx initial_render)))"
proof -
  have h1: "requested_size press_512_ex (render_size initial_render)
      \<noteq> image_size_px (ctx initial_render)"
    by (simp add: requested_size_def press_512_ex_def no_press_def initial_render_def
        RadioButton_def)
  have h2: "buffers (ctx initial_render) < next_buffers initial_render"
    by (simp add: initial_render_def)
  show ?thesis
    using h1 h2 resize_before_render [OF h1 h2, of mat_ex shapes_ex] by blast
qed

lemma frame_calls_ex:
  "frame_calls press_512_ex mat_ex shapes_ex initial_render =
     (\<lparr>render_size = 512, render_dimension = 3, render_mode = RENDER_MODE_NORMALS,
       ctx = \<lparr>image_size_px = 512, buffers = 1\<rparr>, next_buffers = 2\<rparr>,
      [ContextAlloc \<lparr>image_size_px = 512, buffers = 1\<rparr>,
       ContextFree \<lparr>image_size_px = 256, buffers = 0\<rparr>,
       Render3D \<lparr>image_size_px = 512, buffers = 1\<rparr> ''tape of b'' mat_ex,
       CopyToTexture \<lparr>image_size_px = 512, buffers = 1\<rparr> False RENDER_MODE_NORMALS,
       Render3D \<lparr>image_size_px = 512, buffers = 1\<rparr> ''tape of c'' mat_ex,
       CopyToTexture \<lparr>image_size_px = 512, buffers = 1\<rparr> True RENDER_MODE_NORMALS])"
  by (simp add: frame_calls_def settings_window_def requested_size_def press_512_ex_def
      no_press_def initial_render_def RadioButton_def new_Context_def shapes_window_def
      shapes_ex_def render_pass_def)

section \<open>Properties of loading and saving\<close>

lemma getlines_line:
  "newline \<notin> set l \<Longrightarrow> getlines line (l @ newline # cs) = (line @ l) # getlines [] cs"
  by (induction l arbitrary: line) auto

lemma getlines_written_text:
  "\<forall>l \<in> set ls. newline \<notin> set l \<Longrightarrow> getlines [] (written_text ls) = ls"
proof (induction ls)
  case Nil
  show ?case by (simp add: written_text_def)
next
  case (Cons l ls)
  then have "getlines [] (l @ newline # written_text ls) = ([] @ l) # getlines [] (written_text ls)"
    by (intro getlines_line) simp
  with Cons show ?case by (simp add: written_text_def)
qed

lemma startup_from_file:
  "from_file (fst (startup argv fs)) \<longleftrightarrow> 1 < length argv \<and> fs (argv ! 1) \<noteq> None"
  by (auto simp: startup_def split: option.splits)

lemma startup_just_saved: "\<not> just_saved (fst (startup argv fs))"
  by (auto simp: startup_def split: option.splits)

lemma save_handler_from_file: "from_file (fst (save_handler argv inp st)) = from_file st"
  by (simp add: save_handler_def)

lemma save_frames_from_file: "from_file (fst (save_frames argv inps st)) = from_file st"
proof (induction inps arbitrary: st)
  case Nil
  show ?case by simp
next
  case (Cons inp inps)
  show ?case
    using Cons [of "fst (save_handler argv inp st)"] save_handler_from_file [of argv inp st]
    by (simp add: split_def Let_def)
qed

text \<open>
  Claim C9. Let the script have been loaded from the file \<open>argv[1]\<close> at startup, and let
  the save action fire in a later frame: the chord is down, the keyboard is the
  program's, and the chord was not already served. If the file opens for writing, its
  contents become the lines of the buffer, each followed by a newline (reading them back
  as at startup gives the lines of the buffer), and no other file changes. If it does not
  open, no file changes and the failure is written to \<open>std::cerr\<close>. In both cases the
  block ends in a state on which the following frames run.
\<close>

theorem save_action:
  assumes "from_file (fst (startup argv fs))"
      and "st = fst (save_frames argv inps (fst (startup argv fs)))"
      and "\<not> WantCaptureKeyboard inp" and "KeySuper inp \<and> KeyS inp" and "\<not> just_saved st"
  shows "1 < length argv \<and> fs (argv ! 1) \<noteq> None
     \<and> save_handler argv inp st =
         (if output_opens inp then
            (st\<lparr>files := (files st)(argv ! 1 \<mapsto> written_text (TextLines inp)), just_saved := True\<rparr>,
             [FileWritten (argv ! 1) (written_text (TextLines inp))])
          else
            (st\<lparr>just_saved := True\<rparr>,
             [Cerr (''Failed to save to '' @ [quote] @ argv ! 1 @ [quote, newline])]))
     \<and> ((\<forall>l \<in> set (TextLines inp). newline \<notin> set l) \<longrightarrow>
          getlines [] (written_text (TextLines inp)) = TextLines inp)
     \<and> save_frames argv (inp # later) st =
         (fst (save_frames argv later (fst (save_handler argv inp st))),
          snd (save_handler argv inp st) @ snd (save_frames argv later (fst (save_handler argv inp st))))"
proof -
  have a: "1 < length argv \<and> fs (argv ! 1) \<noteq> None"
    using assms(1) by (simp add: startup_from_file)
  have ff: "from_file st"
    using assms(1,2) by (simp add: save_frames_from_file)
  have h: "save_handler argv inp st =
         (if output_opens inp then
            (st\<lparr>files := (files st)(argv ! 1 \<mapsto> written_text (TextLines inp)), just_saved := True\<rparr>,
             [FileWritten (argv ! 1) (written_text (TextLines inp))])
          else
            (st\<lparr>just_saved := True\<rparr>,
             [Cerr (''Failed to save to '' @ [quote] @ argv ! 1 @ [quote, newline])]))"
    using ff assms(3,4,5) by (simp add: save_handler_def)
  have r: "(\<forall>l \<in> set (TextLines inp). newline \<notin> set l) \<longrightarrow>
          getlines [] (written_text (TextLines inp)) = TextLines inp"
    by (simp add: getlines_written_text)
  have c: "save_frames argv (inp # later) st =
         (fst (save_frames argv later (fst (save_handler argv inp st))),
          snd (save_handler argv inp st) @ snd (save_frames argv later (fst (save_handler argv inp st))))"
    by (simp add: split_def Let_def)
  show ?thesis using a h r c by blast
qed

theorem save_action_witness:
  "from_file (fst (startup argv_ex fs_ex))
   \<and> \<not> just_saved (fst (startup argv_ex fs_ex))
   \<and> save_handler argv_ex (chord_ex True) (fst (startup argv_ex fs_ex)) =
       (\<lparr>just_saved = True, from_file = True,
         files = fs_ex(''demo.io'' \<mapsto> written_text [''sphere(1)'', [], ''box(2)''])\<rparr>,
        [FileWritten ''demo.io'' (written_text [''sphere(1)'', [], ''box(2)''])])
   \<and> save_handler argv_ex (chord_ex False) (fst (startup argv_ex fs_ex)) =
       (\<lparr>just_saved = True, from_file = True, files = fs_ex\<rparr>,
        [Cerr (''Failed to save to '' @ [quote] @ ''demo.io'' @ [quote, newline])])
   \<and> getlines [] (written_text [''sphere(1)'', [], ''box(2)'']) = [''sphere(1)'', [], ''box(2)'']"
proof -
  let ?st = "fst (startup argv_ex fs_ex)"
  have h1: "from_file ?st" by (simp add: startup_def argv_ex_def fs_ex_def)
  have h2: "?st = fst (save_frames argv_ex [] ?st)" by simp
  have h3: "\<not> WantCaptureKeyboard (chord_ex b)" "KeySuper (chord_ex b) \<and> KeyS (chord_ex b)" for b
    by (simp_all add: chord_ex_def)
  have h4: "\<not> just_saved ?st" by (rule startup_just_saved)
  have st: "?st = \<lparr>just_saved = False, from_file = True, files = fs_ex\<rparr>"
    by (simp add: startup_def argv_ex_def fs_ex_def)
  have nl: "\<forall>l \<in> set (TextLines (chord_ex True)). newline \<notin> set l"
    by (simp add: chord_ex_def newline_def)
  show ?thesis
    using save_action [OF h1 h2 h3(1) h3(2) h4, of True "[]"]
      save_action [OF h1 h2 h3(1) h3(2) h4, of False "[]"] h1 h4 nl
    by (simp add: st st [unfolded argv_ex_def] chord_ex_def argv_ex_def)
qed

lemma save_frames_held:
  "just_saved st \<Longrightarrow> \<forall>inp \<in> set inps. \<not> released inp \<Longrightarrow>
   snd (save_frames argv inps st) = [] \<and> just_saved (fst (save_frames argv inps st))"
proof (induction inps arbitrary: st)
  case Nil
  then show ?case by simp
next
  case (Cons inp inps)
  from Cons.prems have s: "save_handler argv inp st = (st, [])"
    by (auto simp: save_handler_def released_def)
  from Cons.IH [of st] Cons.prems s show ?case
    by (simp add: split_def Let_def)
qed

lemma save_handler_attempt:
  "snd (save_handler argv inp st) \<noteq> [] \<Longrightarrow> just_saved (fst (save_handler argv inp st))"
  by (auto simp: save_handler_def split: if_splits)

lemma save_frames_at_most_once:
  "\<forall>inp \<in> set inps. \<not> released inp \<Longrightarrow> length (snd (save_frames argv inps st)) \<le> 1"
proof (induction inps arbitrary: st)
  case Nil
  show ?case by simp
next
  case (Cons inp inps)
  let ?st1 = "fst (save_handler argv inp st)"
  let ?ev1 = "snd (save_handler argv inp st)"
  have rest: "\<forall>i \<in> set inps. \<not> released i" using Cons.prems by simp
  have e: "snd (save_frames argv (inp # inps) st) = ?ev1 @ snd (save_frames argv inps ?st1)"
    by (simp add: split_def Let_def)
  show ?case
  proof (cases "?ev1 = []")
    case True
    with e Cons.IH [OF rest, of ?st1] show ?thesis by simp
  next
    case False
    then have "just_saved ?st1" by (rule save_handler_attempt)
    then have "snd (save_frames argv inps ?st1) = []"
      using rest save_frames_held by blast
    moreover have "length ?ev1 \<le> 1" by (simp add: save_handler_def)
    ultimately show ?thesis using e by simp
  qed
qed

lemma save_frames_not_from_file:
  "\<not> from_file st \<Longrightarrow> snd (save_frames argv inps st) = []"
proof (induction inps arbitrary: st)
  case Nil
  show ?case by simp
next
  case (Cons inp inps)
  have "snd (save_handler argv inp st) = []" "\<not> from_file (fst (save_handler argv inp st))"
    using Cons.prems by (simp_all add: save_handler_def)
  with Cons.IH [of "fst (save_handler argv inp st)"] show ?case
    by (simp add: split_def Let_def)
qed

text \<open>
  Claim C10. Over consecutive frames in which the chord is held, whatever the state
  before them, the block makes at most one attempt to save, so at most one write. After
  a frame that made an attempt, no frame makes another before a frame sees the chord
  released. From a startup that opened no file (no argument, or a path that does not
  open), no frame ever makes an attempt.
\<close>

theorem save_once_per_chord:
  "((\<forall>inp \<in> set inps. KeySuper inp \<and> KeyS inp) \<longrightarrow>
      length (snd (save_frames argv inps st)) \<le> 1
      \<and> length (filter is_write (snd (save_frames argv inps st))) \<le> 1)
   \<and> (snd (save_handler argv inp0 st) \<noteq> [] \<and> (\<forall>inp \<in> set inps. \<not> released inp) \<longrightarrow>
      snd (save_frames argv inps (fst (save_handler argv inp0 st))) = [])
   \<and> (length argv \<le> 1 \<or> fs (argv ! 1) = None \<longrightarrow>
      snd (save_frames argv inps (fst (startup argv fs))) = [])"
proof (intro conjI impI)
  assume h: "\<forall>inp \<in> set inps. KeySuper inp \<and> KeyS inp"
  then have nr: "\<forall>inp \<in> set inps. \<not> released inp" by (simp add: released_def)
  then show l: "length (snd (save_frames argv inps st)) \<le> 1"
    by (rule save_frames_at_most_once)
  have "length (filter is_write (snd (save_frames argv inps st)))
      \<le> length (snd (save_frames argv inps st))"
    by (rule length_filter_le)
  from this l show "length (filter is_write (snd (save_frames argv inps st))) \<le> 1"
    by (rule le_trans)
next
  assume "snd (save_handler argv inp0 st) \<noteq> [] \<and> (\<forall>inp \<in> set inps. \<not> released inp)"
  then have "just_saved (fst (save_handler argv inp0 st))" "\<forall>inp \<in> set inps. \<not> released inp"
    by (simp_all add: save_handler_attempt)
  then show "snd (save_frames argv inps (fst (save_handler argv inp0 st))) = []"
    using save_frames_held by blast
next
  assume "length argv \<le> 1 \<or> fs (argv ! 1) = None"
  then have "\<not> from_file (fst (startup argv fs))"
    by (auto simp: startup_from_file)
  then show "snd (save_frames argv inps (fst (startup argv fs))) = []"
    by (rule save_frames_not_from_file)
qed

theorem save_once_per_chord_witness:
  "(KeySuper (chord_ex True) \<and> KeyS (chord_ex True))
   \<and> \<not> released (chord_ex True)
   \<and> snd (save_handler argv_ex (chord_ex True) (fst (startup argv_ex fs_ex))) \<noteq> []
   \<and> length (snd (save_frames argv_ex [chord_ex True, chord_ex True, chord_ex True]
        (fst (startup argv_ex fs_ex)))) \<le> 1
   \<and> length (filter is_write (snd (save_frames argv_ex [chord_ex True, chord_ex True, chord_ex True]
        (fst (startup argv_ex fs_ex))))) \<le> 1
   \<and> snd (save_frames argv_ex [chord_ex True, chord_ex True]
        (fst (save_handler argv_ex (chord_ex True) (fst (startup argv_ex fs_ex))))) = []
   \<and> length [''gui''] \<le> 1
   \<and> snd (save_frames [''gui''] [chord_ex True, chord_ex True] (fst (startup [''gui''] fs_ex))) = []"
proof -
  have k: "KeySuper (chord_ex True) \<and> KeyS (chord_ex True)" "\<not> released (chord_ex True)"
    by (simp_all add: chord_ex_def released_def)
  have a: "snd (save_handler argv_ex (chord_ex True) (fst (startup argv_ex fs_ex))) \<noteq> []"
    by (simp add: save_handler_def startup_def argv_ex_def fs_ex_def chord_ex_def)
  show ?thesis
    using k a
      save_once_per_chord [where inps = "[chord_ex True, chord_ex True, chord_ex True]"
        and argv = argv_ex and st = "fst (startup argv_ex fs_ex)"]
      save_once_per_chord [where inps = "[chord_ex True, chord_ex True]"
        and argv = argv_ex and st = "fst (startup argv_ex fs_ex)" and ?inp0.0 = "chord_ex True"]
      save_once_per_chord [where inps = "[chord_ex True, chord_ex True]"
        and argv = "[''gui'']" and fs = fs_ex]
    by simp
qed

lemma save_frames_ex:
  "snd (save_frames argv_ex
      [chord_ex True, chord_ex True, chord_ex True\<lparr>KeyS := False\<rparr>, chord_ex False]
      (fst (startup argv_ex fs_ex))) =
     [FileWritten ''demo.io'' (written_text [''sphere(1)'', [], ''box(2)'']),
      Cerr (''Failed to save to '' @ [quote] @ ''demo.io'' @ [quote, newline])]"
  by (simp add: save_handler_def startup_def argv_ex_def fs_ex_def chord_ex_def)

section \<open>Properties of the view transform\<close>

lemma fmod_nonneg:
  assumes "0 < y" and "0 \<le> x"
  shows "0 \<le> fmod x y \<and> fmod x y < y"
proof -
  define n where "n = \<lfloor>x / y\<rfloor>"
  have q: "0 \<le> x / y" using assms by simp
  then have t: "trunc (x / y) = n" by (simp add: trunc_def n_def)
  have "of_int n \<le> x / y" and "x / y < of_int n + 1"
    unfolding n_def using floor_correct [of "x / y"] by simp_all
  then have lo: "of_int n * y \<le> x" and hi: "x < (of_int n + 1) * y"
    using assms(1) by (simp_all add: pos_le_divide_eq pos_divide_less_eq)
  from lo hi show ?thesis by (simp add: fmod_def t algebra_simps)
qed

lemma fmod_neg:
  assumes "0 < y" and "x < 0"
  shows "- y < fmod x y \<and> fmod x y \<le> 0"
proof -
  define n where "n = \<lceil>x / y\<rceil>"
  have q: "x / y < 0" using assms by (simp add: divide_neg_pos)
  then have t: "trunc (x / y) = n" by (simp add: trunc_def n_def)
  have "x / y \<le> of_int n" and "of_int n - 1 < x / y"
    unfolding n_def using ceiling_correct [of "x / y"] by simp_all
  then have hi: "x \<le> of_int n * y" and lo: "(of_int n - 1) * y < x"
    using assms(1) by (simp_all add: pos_divide_le_eq pos_less_divide_eq)
  from lo hi show ?thesis by (simp add: fmod_def t algebra_simps)
qed

lemma fmod_bounds: "0 < y \<Longrightarrow> - y < fmod x y \<and> fmod x y < y"
  using fmod_nonneg [of y x] fmod_neg [of y x] by (cases "0 \<le> x") auto

lemma fmod_small_neg:
  assumes "0 < y" and "- y < x" and "x < 0"
  shows "fmod x y = x"
proof -
  have "- 1 < x / y" using assms(1,2) by (simp add: pos_less_divide_eq)
  moreover have "x / y < 0" using assms(1,3) by (simp add: divide_neg_pos)
  ultimately have "\<lceil>x / y\<rceil> = 0" "\<not> 0 \<le> x / y" by (simp_all add: ceiling_eq_iff)
  then show ?thesis by (simp add: fmod_def trunc_def)
qed

lemma view_yaw_rotate_view:
  "view_yaw (rotate_view d st) = fmod (view_yaw st - fst d / 100) (2 * M_PI)"
  by (cases d) (simp add: rotate_view_def Let_def)

lemma view_yaw_pan [simp]: "view_yaw (pan ds mouse drag st) = view_yaw st"
  by (simp add: pan_def)

lemma view_yaw_zoom [simp]: "view_yaw (zoom ds mouse scroll st) = view_yaw st"
  by (simp add: zoom_def Let_def)

lemma M_PI_pos: "0 < 2 * M_PI"
  by (simp add: M_PI_def)

lemma mouse_block_yaw:
  "- (2 * M_PI) < view_yaw st \<and> view_yaw st < 2 * M_PI \<Longrightarrow>
   - (2 * M_PI) < view_yaw (mouse_block ds inp st) \<and> view_yaw (mouse_block ds inp st) < 2 * M_PI"
  using fmod_bounds [OF M_PI_pos]
  by (simp add: mouse_block_def Let_def view_yaw_rotate_view)

text \<open>
  Claim C4, as the code has it. \<open>fmod\<close> keeps the sign of its first argument. After any
  sequence of frames of pointer input (rotations, and pans and zooms between them)
  from the initial view, in exact arithmetic, the yaw lies in the open interval from
  \<open>-2\<pi>\<close> to \<open>2\<pi>\<close>.
\<close>

theorem yaw_within_two_pi:
  "- (2 * pi) < view_yaw (mouse_frames ds inps initial_view)
   \<and> view_yaw (mouse_frames ds inps initial_view) < 2 * pi"
proof -
  have "- (2 * M_PI) < view_yaw st \<and> view_yaw st < 2 * M_PI \<Longrightarrow>
        - (2 * M_PI) < view_yaw (mouse_frames ds inps st)
        \<and> view_yaw (mouse_frames ds inps st) < 2 * M_PI" for st
  proof (induction inps arbitrary: st)
    case Nil
    then show ?case by simp
  next
    case (Cons inp inps)
    from Cons.prems have "- (2 * M_PI) < view_yaw (mouse_block ds inp st)
        \<and> view_yaw (mouse_block ds inp st) < 2 * M_PI"
      by (rule mouse_block_yaw)
    then show ?case using Cons.IH by simp
  qed
  from this [of initial_view] show ?thesis
    by (simp add: initial_view_def M_PI_def)
qed

text \<open>
  From the initial view, with yaw 0, one rotation by a drag of 100 pixels to the right
  leaves the yaw at \<open>-1\<close>, outside the interval from 0 to \<open>2\<pi>\<close>. All the values are
  exact in \<open>float\<close>.
\<close>

theorem yaw_negative_counterexample:
  "view_yaw (mouse_frames (1024, 512) [rotate_ex] initial_view) = - 1
   \<and> \<not> (0 \<le> view_yaw (mouse_frames (1024, 512) [rotate_ex] initial_view)
        \<and> view_yaw (mouse_frames (1024, 512) [rotate_ex] initial_view) < 2 * pi)"
proof -
  have "fmod (- 1) (2 * M_PI) = - 1"
  proof (rule fmod_small_neg)
    show "0 < 2 * M_PI" by (rule M_PI_pos)
    have "1 < 2 * pi" using pi_ge_two by simp
    then show "- (2 * M_PI) < - 1" by (simp add: M_PI_def)
    show "(- 1 :: real) < 0" by simp
  qed
  then have "view_yaw (mouse_frames (1024, 512) [rotate_ex] initial_view) = - 1"
    by (simp add: mouse_block_def rotate_ex_def initial_view_def view_yaw_rotate_view Let_def)
  then show ?thesis by simp
qed

lemma mv_vadd: "mv A (vadd u v) = vadd (mv A u) (mv A v)"
  by (cases A, cases u, cases v) (auto simp: algebra_simps)

lemma mv_mm: "mv (mm A B) v = mv A (mv B v)"
proof -
  obtain a1 a2 a3 where A: "A = (a1, a2, a3)" by (cases A)
  obtain b1 b2 b3 where B: "B = (b1, b2, b3)" by (cases B)
  obtain a11 a12 a13 where a1: "a1 = (a11, a12, a13)" by (cases a1)
  obtain a21 a22 a23 where a2: "a2 = (a21, a22, a23)" by (cases a2)
  obtain a31 a32 a33 where a3: "a3 = (a31, a32, a33)" by (cases a3)
  obtain b11 b12 b13 where b1: "b1 = (b11, b12, b13)" by (cases b1)
  obtain b21 b22 b23 where b2: "b2 = (b21, b22, b23)" by (cases b2)
  obtain b31 b32 b33 where b3: "b3 = (b31, b32, b33)" by (cases b3)
  obtain x y z where v: "v = (x, y, z)" by (cases v)
  show ?thesis
    by (simp add: A B a1 a2 a3 b1 b2 b3 v algebra_simps)
qed

lemma transform_compose: "transform (compose A B) p = transform A (transform B p)"
proof -
  obtain x y z where x: "mv (linear A) (mv (linear B) p) = (x, y, z)"
    by (cases "mv (linear A) (mv (linear B) p)")
  obtain u v w where u: "mv (linear A) (translation B) = (u, v, w)"
    by (cases "mv (linear A) (translation B)")
  obtain a b c where a: "translation A = (a, b, c)" by (cases "translation A")
  show ?thesis
    by (simp add: transform_def compose_def mv_mm mv_vadd x u a)
qed

lemma translation_model_of: "translation (model_of st) = view_center st"
proof -
  obtain x y z where c: "view_center st = (x, y, z)" by (cases "view_center st")
  show ?thesis
    by (simp add: model_of_def rotate_def scale_def translate_def Identity_def identity3_def
        diagonal_def c)
qed

lemma linear_model_of_center [simp]:
  "linear (model_of (st\<lparr>view_center := c\<rparr>)) = linear (model_of st)"
  by (simp add: model_of_def rotate_def scale_def translate_def)

lemma model_view_point_eq:
  "model_view_point st ds p =
     vadd (mv (linear (model_of st)) (transform (view_of ds) p)) (view_center st)"
  by (simp add: model_view_point_def transform_compose)
     (simp add: transform_def translation_model_of)

lemma vsub_vsub: "vsub b (vsub b a) = a"
  by (cases a, cases b) simp

lemma recenter: "vadd Y (vadd c (vsub (vadd X c) (vadd Y c))) = vadd X c"
  by (cases X, cases Y, cases c) simp

lemma recenter_zoom: "vadd Y (vsub c (vsub (vadd Y c) (vadd X c))) = vadd X c"
  by (cases X, cases Y, cases c) simp

text \<open>
  Claim C3, as the code has it. The code takes \<open>model * view * p\<close>, not its inverse, for
  the point of the world under the pixel \<open>p\<close>. With that map, in exact arithmetic, for
  every view, every display of positive size and every drag of the pointer from \<open>a\<close> to
  \<open>b\<close> (so that \<open>mouse\<close> is \<open>b\<close> and the drag delta \<open>b - a\<close>), the point of the world under
  \<open>a\<close> before the pan is under \<open>b\<close> after it.
\<close>

theorem pan_keeps_point_under_pointer:
  "0 < max w h \<Longrightarrow>
   model_view_point (pan (w, h) b (vsub b a) st) (w, h) b = model_view_point st (w, h) a"
  by (simp add: model_view_point_eq [of "pan (w, h) b (vsub b a) st"] pan_def vsub_vsub)
     (simp add: model_view_point_eq recenter)

text \<open>
  Claim C2, as the code has it. The code takes \<open>model * view * p\<close>, not its inverse, for
  the point of the world under the pixel \<open>p\<close> (lines 216 and 222). With that map, in
  exact arithmetic, for every view, every display of positive size, every pixel and
  every scroll amount, the point of the world under the pixel is the same before the
  zoom and after it has multiplied the scale by \<open>1.01\<close> to the power of the scroll amount
  and shifted the centre by \<open>-(end - start)\<close>. The rounding of \<open>float\<close> is not part of
  this model.
\<close>

theorem zoom_keeps_point_under_pointer:
  "0 < max w h \<Longrightarrow>
   model_view_point (zoom (w, h) mouse scroll st) (w, h) mouse = model_view_point st (w, h) mouse"
  by (simp add: model_view_point_eq [of "zoom (w, h) mouse scroll st"] zoom_def Let_def)
     (simp add: model_view_point_eq recenter_zoom)

text \<open>The inverse of a transform undoes it, where the linear part has an inverse.\<close>

lemma mv_inverse3: "det3 A \<noteq> 0 \<Longrightarrow> mv (inverse3 A) (mv A v) = v"
proof -
  assume d: "det3 A \<noteq> 0"
  obtain a1 a2 a3 where A: "A = (a1, a2, a3)" by (cases A)
  obtain a b c where a1: "a1 = (a, b, c)" by (cases a1)
  obtain d e f where a2: "a2 = (d, e, f)" by (cases a2)
  obtain g h i where a3: "a3 = (g, h, i)" by (cases a3)
  obtain x y z where v: "v = (x, y, z)" by (cases v)
  define D where "D = a * (e * i - f * h) - b * (d * i - f * g) + c * (d * h - e * g)"
  have D: "D \<noteq> 0" using d by (simp add: A a1 a2 a3 D_def)
  have "mv (inverse3 A) (mv A v) =
    (((e * i - f * h) * (a * x + b * y + c * z) + (c * h - b * i) * (d * x + e * y + f * z)
       + (b * f - c * e) * (g * x + h * y + i * z)) / D,
     ((f * g - d * i) * (a * x + b * y + c * z) + (a * i - c * g) * (d * x + e * y + f * z)
       + (c * d - a * f) * (g * x + h * y + i * z)) / D,
     ((d * h - e * g) * (a * x + b * y + c * z) + (b * g - a * h) * (d * x + e * y + f * z)
       + (a * e - b * d) * (g * x + h * y + i * z)) / D)"
    by (simp add: A a1 a2 a3 v D_def Let_def add_divide_distrib)
  also have "\<dots> = (x * D / D, y * D / D, z * D / D)"
    by (simp add: D_def algebra_simps)
  also have "\<dots> = (x, y, z)" using D by simp
  finally show ?thesis by (simp add: v)
qed

lemma transform_inverse_affine:
  "det3 (linear A) \<noteq> 0 \<Longrightarrow> transform (inverse_affine A) (transform A p) = p"
proof -
  assume d: "det3 (linear A) \<noteq> 0"
  obtain x y z where x: "mv (inverse3 (linear A)) (translation A) = (x, y, z)"
    by (cases "mv (inverse3 (linear A)) (translation A)")
  obtain u v w where p: "p = (u, v, w)" by (cases p)
  show ?thesis
    using mv_inverse3 [OF d, of p]
    by (simp add: transform_def inverse_affine_def mv_vadd x p)
qed

lemmas view_defs = model_view_point_def inverse_model_view_point_def transform_def compose_def
  inverse_affine_def model_of_def view_of_def rotate_def scale_def scale_vec_def translate_def
  Identity_def identity3_def diagonal_def AngleAxis_UnitX_def AngleAxis_UnitZ_def
  initial_view_def pan_def Let_def

text \<open>
  The initial view on a display of 1024 by 512 pixels, and a drag from the pixel
  (512, 256) to the pixel (640, 256); every value is exact in \<open>float\<close>. With the inverse
  of \<open>model * view\<close> as the map from pixels to the world, the point under the first pixel
  before the pan is not the point under the second after it, and the centre the code
  computes, (-1/2, 0, 0), is not the centre that map gives in the update, (-32768, 0, 0).
\<close>

theorem pan_inverse_counterexample:
  "inverse_model_view_point initial_view (1024, 512) (512, 256, 0) = (131584, - 65280, 0)
   \<and> inverse_model_view_point (pan (1024, 512) (640, 256, 0) (128, 0, 0) initial_view)
        (1024, 512) (640, 256, 0) = (164480, - 65280, 0)
   \<and> inverse_model_view_point (pan (1024, 512) (640, 256, 0) (128, 0, 0) initial_view)
        (1024, 512) (640, 256, 0)
      \<noteq> inverse_model_view_point initial_view (1024, 512) (512, 256, 0)
   \<and> view_center (pan (1024, 512) (640, 256, 0) (128, 0, 0) initial_view) = (- 1 / 2, 0, 0)
   \<and> vadd (view_center initial_view)
        (vsub (inverse_model_view_point initial_view (1024, 512) (vsub (640, 256, 0) (128, 0, 0)))
              (inverse_model_view_point initial_view (1024, 512) (640, 256, 0)))
      = (- 32768, 0, 0)"
  by (simp add: view_defs)

theorem pan_keeps_point_under_pointer_witness:
  "(0 :: real) < max 1024 512
   \<and> vsub (640, 256, 0) (512, 256, 0) = (128, 0, 0)
   \<and> model_view_point initial_view (1024, 512) (512, 256, 0) = (0, 0, 0)
   \<and> model_view_point (pan (1024, 512) (640, 256, 0) (128, 0, 0) initial_view)
        (1024, 512) (640, 256, 0) = (0, 0, 0)"
proof -
  have h: "(0 :: real) < max 1024 512" by simp
  have d: "vsub (640, 256, 0) (512, 256, 0) = (128, 0, 0)" by simp
  have s: "model_view_point initial_view (1024, 512) (512, 256, 0) = (0, 0, 0)"
    by (simp add: view_defs)
  show ?thesis
    using h s pan_keeps_point_under_pointer [OF h, of "(640, 256, 0)" "(512, 256, 0)" initial_view]
    by (simp add: d)
qed

text \<open>
  The initial view on a display of 1024 by 512 pixels, the pointer on the pixel
  (100, 50) and a scroll of one notch. With the inverse of \<open>model * view\<close> as the map from
  pixels to the world, the point under the pixel before the zoom, (26112, -12544, 0), is
  not the point under it after the zoom: the two differ by more than 250 units in the
  first coordinate, far from any rounding.
\<close>

theorem zoom_inverse_counterexample:
  "inverse_model_view_point initial_view (1024, 512) (100, 50, 0) = (26112, - 12544, 0)
   \<and> view_scale (zoom (1024, 512) (100, 50, 0) 1 initial_view) = 2.02
   \<and> view_center (zoom (1024, 512) (100, 50, 0) 1 initial_view) = (103 / 6400, - 103 / 12800, 0)
   \<and> inverse_model_view_point (zoom (1024, 512) (100, 50, 0) 1 initial_view)
        (1024, 512) (100, 50, 0)
      = (2611300 / 101, - 1254350 / 101, 0)
   \<and> inverse_model_view_point (zoom (1024, 512) (100, 50, 0) 1 initial_view)
        (1024, 512) (100, 50, 0)
      \<noteq> inverse_model_view_point initial_view (1024, 512) (100, 50, 0)"
  by (simp add: view_defs zoom_def)

theorem zoom_keeps_point_under_pointer_witness:
  "(0 :: real) < max 1024 512
   \<and> model_view_point initial_view (1024, 512) (100, 50, 0) = (- 103 / 64, 103 / 128, 0)
   \<and> model_view_point (zoom (1024, 512) (100, 50, 0) 1 initial_view) (1024, 512) (100, 50, 0)
      = (- 103 / 64, 103 / 128, 0)"
proof -
  have h: "(0 :: real) < max 1024 512" by simp
  have s: "model_view_point initial_view (1024, 512) (100, 50, 0) = (- 103 / 64, 103 / 128, 0)"
    by (simp add: view_defs)
  show ?thesis
    using h s zoom_keeps_point_under_pointer [OF h, of "(100, 50, 0)" 1 initial_view]
    by simp
qed

end
